theory Spec2Isabelle
  imports Main
begin

section \<open>The step-workflow engine of \<^verbatim>\<open>Expert/challenge_1_workflow_engine.py\<close>\<close>

subsection \<open>Python values and the execution context\<close>

text \<open>
  The context handed to \<^verbatim>\<open>run\<close> is a Python \<^verbatim>\<open>dict\<close> with string keys. Its values
  are modelled by the built-in kinds whose truth value Python fixes; \<open>PObject\<close> is an
  instance of a class that defines neither \<^verbatim>\<open>__bool__\<close> nor \<^verbatim>\<open>__len__\<close>, which is always true.
\<close>

datatype pyval =
    PNone
  | PBool bool
  | PInt int
  | PStr string
  | PList "pyval list"
  | PObject nat

fun truthy :: "pyval \<Rightarrow> bool" where
  "truthy PNone = False"
| "truthy (PBool b) = b"
| "truthy (PInt i) = (i \<noteq> 0)"
| "truthy (PStr s) = (s \<noteq> [])"
| "truthy (PList xs) = (xs \<noteq> [])"
| "truthy (PObject a) = True"

type_synonym pydict = "string \<rightharpoonup> pyval"

text \<open>\<^verbatim>\<open>d.get(key, default)\<close>: the default when the key is missing, never a \<^verbatim>\<open>KeyError\<close>.\<close>

definition dict_get :: "pydict \<Rightarrow> string \<Rightarrow> pyval \<Rightarrow> pyval" where
  "dict_get d key dflt = (case d key of None \<Rightarrow> dflt | Some v \<Rightarrow> v)"

text \<open>
  What a step can reach: the context dictionary it is given, and the standard output it
  prints to.
\<close>

record world =
  context_dict :: pydict
  stdout :: "string list"

subsection \<open>Steps\<close>

text \<open>
  \<^verbatim>\<open>Step.execute(context) -> str\<close> either returns an outcome key or raises; in both cases
  whatever it did to the context stays done. A step is named by its identity \<open>'s\<close> (the
  transition table is keyed by the instance). The state \<open>'w\<close> holds the context and
  anything else the steps can reach; it does not hold the engine.

  The engine asks three things of a step object: it calls \<^verbatim>\<open>execute\<close>, it tests its truth
  value (\<^verbatim>\<open>while current_step:\<close>, which is false for an instance whose class gives
  \<^verbatim>\<open>__bool__\<close> false or \<^verbatim>\<open>__len__\<close> zero), and it hashes it as a dictionary key (which
  raises \<^verbatim>\<open>TypeError\<close> for an instance whose class defines \<^verbatim>\<open>__eq__\<close> without
  \<^verbatim>\<open>__hash__\<close>). The three are the fields of \<open>steps\<close>.
\<close>

datatype 'x outcome = Returns string | Raises 'x

record ('s, 'w, 'x) steps =
  execute :: "'s \<Rightarrow> 'w \<Rightarrow> 'x outcome \<times> 'w"
  truth_value :: "'s \<Rightarrow> bool"
  hashable :: "'s \<Rightarrow> bool"

definition print :: "string \<Rightarrow> world \<Rightarrow> world" where
  "print line w = w\<lparr>stdout := stdout w @ [line]\<rparr>"

definition StepA_execute :: "world \<Rightarrow> 'x outcome \<times> world" where
  "StepA_execute w =
     (let w1 = print ''StepA: validating data'' w
      in if truthy (dict_get (context_dict w1) ''data_valid'' (PBool False))
         then (Returns ''success'', w1)
         else (Returns ''fail'', w1))"

definition StepB_execute :: "world \<Rightarrow> 'x outcome \<times> world" where
  "StepB_execute w = (Returns ''done'', print ''StepB: processing data'' w)"

definition StepC_execute :: "world \<Rightarrow> 'x outcome \<times> world" where
  "StepC_execute w = (Returns ''done'', print ''StepC: handling failure'' w)"

subsection \<open>The engine\<close>

record 's FlowEngine =
  flow_map :: "'s \<rightharpoonup> (string \<rightharpoonup> 's option)"
  start_step :: "'s option"

definition FlowEngine_init :: "'s FlowEngine" where
  "FlowEngine_init = \<lparr>flow_map = Map.empty, start_step = None\<rparr>"

definition set_start :: "'s \<Rightarrow> 's FlowEngine \<Rightarrow> 's FlowEngine" where
  "set_start step self = self\<lparr>start_step := Some step\<rparr>"

datatype py_error = KeyError | TypeError

text \<open>
  \<^verbatim>\<open>add_transition\<close> is two statements. Line 55 tests \<^verbatim>\<open>from_step not in self.flow_map\<close>,
  which hashes \<^verbatim>\<open>from_step\<close> and raises \<^verbatim>\<open>TypeError\<close> when it cannot be hashed, and
  creates the inner dictionary when the step has none. Line 57 subscripts the outer
  dictionary (which raises \<^verbatim>\<open>KeyError\<close> on a missing key) and stores into the inner one.
  \<open>hash_ok\<close> tells which steps can be hashed.
\<close>

definition add_transition ::
  "('s \<Rightarrow> bool) \<Rightarrow> 's \<Rightarrow> string \<Rightarrow> 's option \<Rightarrow> 's FlowEngine \<Rightarrow> py_error + 's FlowEngine"
  where
  "add_transition hash_ok from_step result_key to_step self =
     (if \<not> hash_ok from_step then Inl TypeError
      else
        let self1 = (if flow_map self from_step = None
                     then self\<lparr>flow_map := (flow_map self)(from_step \<mapsto> Map.empty)\<rparr>
                     else self)
        in case flow_map self1 from_step of
             None \<Rightarrow> Inl KeyError
           | Some inner \<Rightarrow>
               Inr (self1\<lparr>flow_map :=
                      (flow_map self1)(from_step \<mapsto> inner(result_key \<mapsto> to_step))\<rparr>))"

text \<open>
  \<^verbatim>\<open>self.flow_map.get(current_step, {}).get(result)\<close>: the first \<^verbatim>\<open>get\<close> hashes the step
  and raises \<^verbatim>\<open>TypeError\<close> when it cannot be hashed. Otherwise the value is Python's
  \<^verbatim>\<open>None\<close> both when the step has no inner dictionary, when the inner dictionary has no
  such key, and when the key is wired to \<^verbatim>\<open>None\<close>.
\<close>

definition lookup ::
  "('s \<Rightarrow> bool) \<Rightarrow> 's FlowEngine \<Rightarrow> 's \<Rightarrow> string \<Rightarrow> py_error + 's option" where
  "lookup hash_ok self step result =
     (if \<not> hash_ok step then Inl TypeError
      else Inr (case (case flow_map self step of None \<Rightarrow> Map.empty | Some inner \<Rightarrow> inner)
                       result of
                  None \<Rightarrow> None
                | Some next_step \<Rightarrow> next_step))"

text \<open>
  The frame of one call of \<^verbatim>\<open>run\<close>: the engine, the local \<^verbatim>\<open>current_step\<close>, the state
  shared with the steps, the exception on its way out of \<^verbatim>\<open>run\<close> (\<open>Inr x\<close> when a step
  raised \<open>x\<close>, \<open>Inl e\<close> when a statement of \<^verbatim>\<open>run\<close> itself raised \<open>e\<close>), and (not in the
  source, kept for the properties) the steps whose \<^verbatim>\<open>execute\<close> was called, in order.
\<close>

record ('s, 'w, 'x) frame =
  engine :: "'s FlowEngine"
  current_step :: "'s option"
  ctx :: 'w
  raised :: "(py_error + 'x) option"
  executed :: "'s list"

text \<open>The body of the loop (source lines 62 to 64), with \<^verbatim>\<open>current_step\<close> bound to \<open>s\<close>.\<close>

definition loop_body ::
  "('s, 'w, 'x) steps \<Rightarrow> 's \<Rightarrow> ('s, 'w, 'x) frame \<Rightarrow> ('s, 'w, 'x) frame" where
  "loop_body st s fr =
     (case execute st s (ctx fr) of
        (Raises x, w) \<Rightarrow>
          fr\<lparr>ctx := w, raised := Some (Inr x), executed := executed fr @ [s]\<rparr>
      | (Returns result, w) \<Rightarrow>
          (case lookup (hashable st) (engine fr) s result of
             Inl e \<Rightarrow> fr\<lparr>ctx := w, raised := Some (Inl e), executed := executed fr @ [s]\<rparr>
           | Inr next_step \<Rightarrow>
               fr\<lparr>current_step := next_step, ctx := w, executed := executed fr @ [s]\<rparr>))"

text \<open>
  Line 61, \<^verbatim>\<open>while current_step:\<close>, tests the truth value of \<^verbatim>\<open>current_step\<close>: the loop
  ends when it is \<^verbatim>\<open>None\<close> and also when it is a step whose truth value is false. An
  exception leaves the loop at once. The loop may run forever, which is the value \<open>None\<close>.
\<close>

partial_function (option) while_loop ::
  "('s, 'w, 'x) steps \<Rightarrow> ('s, 'w, 'x) frame \<Rightarrow> ('s, 'w, 'x) frame option" where
  "while_loop st fr =
     (if raised fr \<noteq> None then Some fr
      else case current_step fr of
             None \<Rightarrow> Some fr
           | Some s \<Rightarrow>
               if truth_value st s then while_loop st (loop_body st s fr) else Some fr)"

text \<open>Line 60: the frame with which the loop is entered.\<close>

definition run_entry :: "'s FlowEngine \<Rightarrow> 'w \<Rightarrow> ('s, 'w, 'x) frame" where
  "run_entry self w =
     \<lparr>engine = self, current_step = start_step self, ctx = w, raised = None, executed = []\<rparr>"

definition run ::
  "('s, 'w, 'x) steps \<Rightarrow> 's FlowEngine \<Rightarrow> 'w \<Rightarrow> ('s, 'w, 'x) frame option" where
  "run st self w = while_loop st (run_entry self w)"

subsection \<open>The loop, one iteration at a time\<close>

text \<open>
  \<open>halted\<close> is the exit of the loop, \<open>tick\<close> is one iteration (nothing once the loop
  has been left) and \<open>iterations st n\<close> is the frame after \<open>n\<close> of them.
\<close>

definition halted :: "('s, 'w, 'x) steps \<Rightarrow> ('s, 'w, 'x) frame \<Rightarrow> bool" where
  "halted st fr \<longleftrightarrow>
     raised fr \<noteq> None \<or>
     (case current_step fr of None \<Rightarrow> True | Some s \<Rightarrow> \<not> truth_value st s)"

definition tick ::
  "('s, 'w, 'x) steps \<Rightarrow> ('s, 'w, 'x) frame \<Rightarrow> ('s, 'w, 'x) frame" where
  "tick st fr =
     (if raised fr \<noteq> None then fr
      else case current_step fr of
             None \<Rightarrow> fr
           | Some s \<Rightarrow> if truth_value st s then loop_body st s fr else fr)"

primrec iterations ::
  "('s, 'w, 'x) steps \<Rightarrow> nat \<Rightarrow> ('s, 'w, 'x) frame \<Rightarrow> ('s, 'w, 'x) frame" where
  "iterations st 0 fr = fr"
| "iterations st (Suc n) fr = tick st (iterations st n fr)"


text \<open>What a caller of \<^verbatim>\<open>run\<close> can tell of a frame, the engine apart.\<close>

definition observable ::
  "('s, 'w, 'x) frame \<Rightarrow> 's option \<times> 'w \<times> (py_error + 'x) option \<times> 's list" where
  "observable fr = (current_step fr, ctx fr, raised fr, executed fr)"


subsection \<open>Configuring an engine\<close>

text \<open>
  A client configures an engine by a sequence of calls of \<^verbatim>\<open>set_start\<close> and
  \<^verbatim>\<open>add_transition\<close> on a fresh \<^verbatim>\<open>FlowEngine()\<close>, as lines 76 to 81 do; an exception
  ends the sequence.
\<close>

datatype 's call = SetStart 's | AddTransition 's string "'s option"

fun apply_call :: "('s \<Rightarrow> bool) \<Rightarrow> 's call \<Rightarrow> 's FlowEngine \<Rightarrow> py_error + 's FlowEngine" where
  "apply_call hash_ok (SetStart step) self = Inr (set_start step self)"
| "apply_call hash_ok (AddTransition from_step result_key to_step) self =
     add_transition hash_ok from_step result_key to_step self"

fun configure ::
  "('s \<Rightarrow> bool) \<Rightarrow> 's call list \<Rightarrow> 's FlowEngine \<Rightarrow> py_error + 's FlowEngine" where
  "configure hash_ok [] self = Inr self"
| "configure hash_ok (c # cs) self =
     (case apply_call hash_ok c self of
        Inl e \<Rightarrow> Inl e
      | Inr self' \<Rightarrow> configure hash_ok cs self')"

subsection \<open>The client of the source file\<close>

text \<open>
  Lines 70 to 81: three step instances, one of each class, the start step and four
  transitions, and the context \<^verbatim>\<open>{"data_valid": True}\<close>. The classes \<^verbatim>\<open>StepA\<close>,
  \<^verbatim>\<open>StepB\<close> and \<^verbatim>\<open>StepC\<close> define only \<^verbatim>\<open>execute\<close>, so their instances are true and
  are hashed by identity.
\<close>

datatype demo_step = step_a | step_b | step_c

definition always :: "'s \<Rightarrow> bool" where
  "always s = True"

fun demo_execute :: "demo_step \<Rightarrow> world \<Rightarrow> 'x outcome \<times> world" where
  "demo_execute step_a = StepA_execute"
| "demo_execute step_b = StepB_execute"
| "demo_execute step_c = StepC_execute"

definition demo_steps :: "(demo_step, world, 'x) steps" where
  "demo_steps = \<lparr>execute = demo_execute, truth_value = always, hashable = always\<rparr>"

definition demo_calls :: "demo_step call list" where
  "demo_calls =
     [SetStart step_a,
      AddTransition step_a ''success'' (Some step_b),
      AddTransition step_a ''fail'' (Some step_c),
      AddTransition step_b ''done'' None,
      AddTransition step_c ''done'' None]"

definition demo_context :: world where
  "demo_context = \<lparr>context_dict = [''data_valid'' \<mapsto> PBool True], stdout = []\<rparr>"

definition demo_engine :: "demo_step FlowEngine" where
  "demo_engine =
     \<lparr>flow_map = [step_a \<mapsto> [''success'' \<mapsto> Some step_b, ''fail'' \<mapsto> Some step_c],
                  step_b \<mapsto> [''done'' \<mapsto> None],
                  step_c \<mapsto> [''done'' \<mapsto> None]],
      start_step = Some step_a\<rparr>"

subsection \<open>Other clients\<close>

text \<open>
  Exceptions for the concrete runs below. The source defines no exception class;
  \<open>ConfigurationError\<close> is the class the specification names, \<open>RuntimeError\<close> is what a
  failing step raises.
\<close>

datatype exn = ConfigurationError | RuntimeError string

text \<open>A variant of the client whose \<^verbatim>\<open>StepB\<close> raises after writing to the context.\<close>

definition StepB_failing :: "world \<Rightarrow> exn outcome \<times> world" where
  "StepB_failing w =
     (Raises (RuntimeError ''boom''),
      w\<lparr>context_dict := (context_dict w)(''partial'' \<mapsto> PInt 1)\<rparr>)"

fun failing_execute :: "demo_step \<Rightarrow> world \<Rightarrow> exn outcome \<times> world" where
  "failing_execute step_a = StepA_execute"
| "failing_execute step_b = StepB_failing"
| "failing_execute step_c = StepC_execute"

definition failing_steps :: "(demo_step, world, exn) steps" where
  "failing_steps = \<lparr>execute = failing_execute, truth_value = always, hashable = always\<rparr>"

text \<open>
  A step that always returns \<^verbatim>\<open>"loop"\<close>, wired to itself: once as an ordinary (true)
  instance, once as an instance of a class whose \<^verbatim>\<open>__len__\<close> returns 0.
\<close>

definition loop_execute :: "unit \<Rightarrow> world \<Rightarrow> exn outcome \<times> world" where
  "loop_execute s w = (Returns ''loop'', w)"

definition never :: "'s \<Rightarrow> bool" where
  "never s = False"

definition loop_steps :: "(unit, world, exn) steps" where
  "loop_steps = \<lparr>execute = loop_execute, truth_value = always, hashable = always\<rparr>"

definition empty_loop_steps :: "(unit, world, exn) steps" where
  "empty_loop_steps = \<lparr>execute = loop_execute, truth_value = never, hashable = always\<rparr>"

definition loop_calls :: "unit call list" where
  "loop_calls = [SetStart (), AddTransition () ''loop'' (Some ())]"

definition loop_engine :: "unit FlowEngine" where
  "loop_engine = \<lparr>flow_map = [() \<mapsto> [''loop'' \<mapsto> Some ()]], start_step = Some ()\<rparr>"

text \<open>
  A diamond whose first step answers \<^verbatim>\<open>"yes"\<close> or \<^verbatim>\<open>"no"\<close> by the context: once with
  ordinary instances, once with a \<^verbatim>\<open>step_b\<close> whose truth value is false. Two more
  contexts: an empty one, and one whose \<^verbatim>\<open>"data_valid"\<close> is the integer 7.
\<close>

definition diamond_execute :: "demo_step \<Rightarrow> world \<Rightarrow> exn outcome \<times> world" where
  "diamond_execute s w =
     (if s = step_a
      then (Returns (if truthy (dict_get (context_dict w) ''data_valid'' (PBool False))
                     then ''yes'' else ''no''), w)
      else (Returns ''done'', w))"

definition diamond_steps :: "(demo_step, world, exn) steps" where
  "diamond_steps = \<lparr>execute = diamond_execute, truth_value = always, hashable = always\<rparr>"

definition not_step_b :: "demo_step \<Rightarrow> bool" where
  "not_step_b s = (s \<noteq> step_b)"

definition empty_b_steps :: "(demo_step, world, exn) steps" where
  "empty_b_steps = \<lparr>execute = diamond_execute, truth_value = not_step_b, hashable = always\<rparr>"

definition diamond_calls :: "demo_step call list" where
  "diamond_calls =
     [SetStart step_a,
      AddTransition step_a ''yes'' (Some step_b),
      AddTransition step_a ''no'' (Some step_c),
      AddTransition step_b ''done'' None,
      AddTransition step_c ''done'' None]"

definition diamond_engine :: "demo_step FlowEngine" where
  "diamond_engine =
     \<lparr>flow_map = [step_a \<mapsto> [''yes'' \<mapsto> Some step_b, ''no'' \<mapsto> Some step_c],
                  step_b \<mapsto> [''done'' \<mapsto> None],
                  step_c \<mapsto> [''done'' \<mapsto> None]],
      start_step = Some step_a\<rparr>"

definition empty_context :: world where
  "empty_context = \<lparr>context_dict = Map.empty, stdout = []\<rparr>"


text \<open>
  A single step wired to terminal on the key it returns, whose class gives \<^verbatim>\<open>__len__\<close>
  zero.
\<close>

definition single_execute :: "unit \<Rightarrow> world \<Rightarrow> exn outcome \<times> world" where
  "single_execute s w = (Returns ''x'', print ''ran'' w)"

definition empty_single_steps :: "(unit, world, exn) steps" where
  "empty_single_steps = \<lparr>execute = single_execute, truth_value = never, hashable = always\<rparr>"

definition single_steps :: "(unit, world, exn) steps" where
  "single_steps = \<lparr>execute = single_execute, truth_value = always, hashable = always\<rparr>"

definition single_engine :: "unit FlowEngine" where
  "single_engine = \<lparr>flow_map = [() \<mapsto> [''x'' \<mapsto> None]], start_step = Some ()\<rparr>"

section \<open>Properties\<close>

subsection \<open>The loop and its iterations\<close>

lemma not_haltedD:
  "\<not> halted st fr \<Longrightarrow>
   raised fr = None \<and> (\<exists>s. current_step fr = Some s \<and> truth_value st s)"
  by (auto simp: halted_def split: option.splits)

lemma while_loop_halted: "halted st fr \<Longrightarrow> while_loop st fr = Some fr"
  by (subst while_loop.simps) (auto simp: halted_def split: option.splits)

lemma tick_halted: "halted st fr \<Longrightarrow> tick st fr = fr"
  by (auto simp: halted_def tick_def split: option.splits)

lemma while_loop_tick: "while_loop st (tick st fr) = while_loop st fr"
proof (cases "halted st fr")
  case True
  then show ?thesis by (simp add: tick_halted)
next
  case False
  then obtain s where "raised fr = None" "current_step fr = Some s" "truth_value st s"
    by (auto dest: not_haltedD)
  then show ?thesis
    by (subst (2) while_loop.simps) (simp add: tick_def)
qed

lemma iterations_shift: "iterations st n (tick st fr) = tick st (iterations st n fr)"
  by (induction n) simp_all



lemma while_loop_iterations: "while_loop st (iterations st n fr) = while_loop st fr"
  by (induction n) (simp_all add: while_loop_tick)

lemma while_loop_SomeD:
  "while_loop st fr = Some fr' \<Longrightarrow> \<exists>n. fr' = iterations st n fr \<and> halted st fr'"
proof (induction rule: while_loop.raw_induct [rotated 1, consumes 1, case_names body])
  case (body rec st fr fr')
  show ?case
  proof (cases "halted st fr")
    case True
    with body(2) have "fr' = fr" by (auto simp: halted_def split: option.splits if_splits)
    with True show ?thesis by (intro exI[of _ 0]) simp
  next
    case False
    then obtain s where s: "raised fr = None" "current_step fr = Some s" "truth_value st s"
      by (auto dest: not_haltedD)
    with body(2) have "rec st (loop_body st s fr) = Some fr'" by simp
    then obtain n where "fr' = iterations st n (loop_body st s fr)" "halted st fr'"
      using body(1) by blast
    moreover have "loop_body st s fr = tick st fr" using s by (simp add: tick_def)
    ultimately have "fr' = iterations st (Suc n) fr" by (simp add: iterations_shift)
    with \<open>halted st fr'\<close> show ?thesis by blast
  qed
qed

lemma while_loop_eq_Some_iff:
  "while_loop st fr = Some fr' \<longleftrightarrow> (\<exists>n. fr' = iterations st n fr \<and> halted st fr')"
proof
  assume "\<exists>n. fr' = iterations st n fr \<and> halted st fr'"
  then obtain n where "fr' = iterations st n fr" "halted st fr'" by blast
  then have "while_loop st (iterations st n fr) = Some fr'"
    by (simp add: while_loop_halted)
  then show "while_loop st fr = Some fr'" by (simp add: while_loop_iterations)
qed (rule while_loop_SomeD)

lemma while_loop_eq_None_iff:
  "while_loop st fr = None \<longleftrightarrow> (\<forall>n. \<not> halted st (iterations st n fr))"
proof
  assume "while_loop st fr = None"
  show "\<forall>n. \<not> halted st (iterations st n fr)"
  proof (intro allI notI)
    fix n assume "halted st (iterations st n fr)"
    then have "while_loop st fr = Some (iterations st n fr)"
      using while_loop_eq_Some_iff by blast
    with \<open>while_loop st fr = None\<close> show False by simp
  qed
next
  assume nh: "\<forall>n. \<not> halted st (iterations st n fr)"
  show "while_loop st fr = None"
  proof (cases "while_loop st fr")
    case (Some fr')
    then show ?thesis using while_loop_SomeD nh by blast
  qed simp
qed

lemma engine_loop_body: "engine (loop_body st s fr) = engine fr"
  by (simp add: loop_body_def split: prod.splits outcome.splits sum.splits)

lemma engine_tick: "engine (tick st fr) = engine fr"
  by (simp add: tick_def engine_loop_body split: option.splits)

lemma engine_iterations: "engine (iterations st n fr) = engine fr"
  by (induction n) (simp_all add: engine_tick)

text \<open>A frame in which the loop goes on, and what one iteration makes of it.\<close>

lemma tick_raises:
  assumes "raised fr = None" "current_step fr = Some s" "truth_value st s"
    and "execute st s (ctx fr) = (Raises x, w)"
  shows "tick st fr = fr\<lparr>ctx := w, raised := Some (Inr x), executed := executed fr @ [s]\<rparr>"
  using assms by (simp add: tick_def loop_body_def)

lemma tick_returns:
  assumes "raised fr = None" "current_step fr = Some s" "truth_value st s"
    and "execute st s (ctx fr) = (Returns k, w)"
    and "lookup (hashable st) (engine fr) s k = Inr t"
  shows "tick st fr = fr\<lparr>current_step := t, ctx := w, executed := executed fr @ [s]\<rparr>"
  using assms by (simp add: tick_def loop_body_def)

subsection \<open>Registration\<close>

lemma add_transition_Inr:
  "h s \<Longrightarrow> add_transition h s k t self =
     Inr (self\<lparr>flow_map := (flow_map self)
            (s \<mapsto> (case flow_map self s of None \<Rightarrow> Map.empty | Some inner \<Rightarrow> inner)(k \<mapsto> t))\<rparr>)"
  by (auto simp: add_transition_def Let_def split: option.splits)

lemma add_transition_unhashable: "\<not> h s \<Longrightarrow> add_transition h s k t self = Inl TypeError"
  by (simp add: add_transition_def)

lemma add_transition_hashable: "add_transition h s k t self = Inr self' \<Longrightarrow> h s"
  by (cases "h s") (simp_all add: add_transition_unhashable)

lemma lookup_unhashable: "\<not> h s \<Longrightarrow> lookup h self s k = Inl TypeError"
  by (simp add: lookup_def)

lemma lookup_add_transition:
  assumes "add_transition h s k t self = Inr self'"
  shows "lookup h self' s' k' = (if s' = s \<and> k' = k then Inr t else lookup h self s' k')"
proof -
  have hs: "h s" by (rule add_transition_hashable[OF assms])
  with assms have fm: "flow_map self' = (flow_map self)
      (s \<mapsto> (case flow_map self s of None \<Rightarrow> Map.empty | Some inner \<Rightarrow> inner)(k \<mapsto> t))"
    by (auto simp: add_transition_Inr)
  show ?thesis
  proof (cases "s' = s")
    case True
    then show ?thesis using hs by (cases "k' = k") (simp_all add: lookup_def fm)
  next
    case False
    then show ?thesis by (simp add: lookup_def fm)
  qed
qed

lemma start_step_add_transition:
  "add_transition h s k t self = Inr self' \<Longrightarrow> start_step self' = start_step self"
  by (frule add_transition_hashable) (auto simp: add_transition_Inr)

lemma add_transition_twice:
  assumes "add_transition h s k t1 self = Inr self1"
  shows "add_transition h s k t2 self1 = add_transition h s k t2 self"
proof -
  have hs: "h s" by (rule add_transition_hashable[OF assms])
  with assms have "self1 = self\<lparr>flow_map := (flow_map self)
      (s \<mapsto> (case flow_map self s of None \<Rightarrow> Map.empty | Some inner \<Rightarrow> inner)(k \<mapsto> t1))\<rparr>"
    by (simp add: add_transition_Inr)
  then show ?thesis using hs by (simp add: add_transition_Inr)
qed

lemma configure_never_set:
  "configure h calls self = Inr self' \<Longrightarrow> \<forall>s. SetStart s \<notin> set calls \<Longrightarrow>
   start_step self' = start_step self"
proof (induction calls arbitrary: self)
  case (Cons c cs)
  show ?case
  proof (cases c)
    case (SetStart x)
    with Cons.prems(2) have False by auto
    then show ?thesis ..
  next
    case (AddTransition s' k' t')
    with Cons.prems obtain self1 where 1: "add_transition h s' k' t' self = Inr self1"
      and 2: "configure h cs self1 = Inr self'"
      by (auto split: sum.splits)
    from Cons.IH[OF 2] Cons.prems(2) have "start_step self' = start_step self1" by simp
    with start_step_add_transition[OF 1] show ?thesis by simp
  qed
qed simp

lemma configure_never_registered:
  "configure h calls self = Inr self' \<Longrightarrow> \<forall>t. AddTransition s k t \<notin> set calls \<Longrightarrow>
   lookup h self' s k = lookup h self s k"
proof (induction calls arbitrary: self)
  case (Cons c cs)
  show ?case
  proof (cases c)
    case (SetStart x)
    with Cons show ?thesis by (auto simp: set_start_def lookup_def)
  next
    case (AddTransition s' k' t')
    with Cons.prems obtain self1 where 1: "add_transition h s' k' t' self = Inr self1"
      and 2: "configure h cs self1 = Inr self'"
      by (auto split: sum.splits)
    from Cons.prems(2) AddTransition have ne: "\<not> (s = s' \<and> k = k')" by auto
    from Cons.IH[OF 2] Cons.prems(2) have "lookup h self' s k = lookup h self1 s k" by simp
    also from lookup_add_transition[OF 1] ne have "\<dots> = lookup h self s k" by auto
    finally show ?thesis .
  qed
qed simp

lemma configure_hashable:
  "\<forall>s k t. AddTransition s k t \<in> set calls \<longrightarrow> h s \<Longrightarrow>
   \<exists>self'. configure h calls self = Inr self'"
proof (induction calls arbitrary: self)
  case (Cons c cs)
  have rest: "\<forall>s k t. AddTransition s k t \<in> set cs \<longrightarrow> h s"
    using Cons.prems by auto
  show ?case
  proof (cases c)
    case (SetStart x)
    then show ?thesis using Cons.IH[OF rest] by simp
  next
    case (AddTransition s k t)
    with Cons.prems have "h s" by auto
    then show ?thesis using AddTransition Cons.IH[OF rest] by (simp add: add_transition_Inr)
  qed
qed simp

lemma lookup_init: "h s \<Longrightarrow> lookup h FlowEngine_init s k = Inr None"
  by (simp add: lookup_def FlowEngine_init_def)

subsection \<open>The concrete engines\<close>

lemma configure_demo_calls: "configure always demo_calls FlowEngine_init = Inr demo_engine"
  by (simp add: demo_calls_def demo_engine_def FlowEngine_init_def add_transition_def
      set_start_def always_def)

lemma configure_loop_calls: "configure always loop_calls FlowEngine_init = Inr loop_engine"
  by (simp add: loop_calls_def loop_engine_def FlowEngine_init_def add_transition_def
      set_start_def always_def)

lemma configure_diamond_calls:
  "configure always diamond_calls FlowEngine_init = Inr diamond_engine"
  by (simp add: diamond_calls_def diamond_engine_def FlowEngine_init_def add_transition_def
      set_start_def always_def)

lemma demo_run:
  "run (demo_steps :: (demo_step, world, exn) steps) demo_engine demo_context =
   Some \<lparr>engine = demo_engine, current_step = None,
         ctx = \<lparr>context_dict = [''data_valid'' \<mapsto> PBool True],
                 stdout = [''StepA: validating data'', ''StepB: processing data'']\<rparr>,
         raised = None, executed = [step_a, step_b]\<rparr>"
  by (simp add: run_def run_entry_def while_loop.simps loop_body_def lookup_def
      StepA_execute_def StepB_execute_def print_def dict_get_def demo_context_def
      demo_engine_def demo_steps_def always_def)


lemma run_start_unset:
  "start_step self = None \<Longrightarrow> run st self c = Some (run_entry self c)"
  by (simp add: run_def run_entry_def while_loop_halted halted_def)

subsection \<open>Engines with the same transitions\<close>

lemma tick_same_lookup:
  assumes "\<forall>s k. lookup (hashable st) (engine fr') s k = lookup (hashable st) (engine fr) s k"
    and "observable fr' = observable fr"
  shows "observable (tick st fr') = observable (tick st fr)"
  using assms
  by (auto simp: observable_def tick_def loop_body_def
      split: option.splits prod.splits outcome.splits sum.splits)

lemma iterations_same_lookup:
  assumes "\<forall>s k. lookup (hashable st) (engine fr') s k = lookup (hashable st) (engine fr) s k"
    and "observable fr' = observable fr"
  shows "observable (iterations st n fr') = observable (iterations st n fr)"
proof (induction n)
  case (Suc n)
  have "\<forall>s k. lookup (hashable st) (engine (iterations st n fr')) s k
      = lookup (hashable st) (engine (iterations st n fr)) s k"
    using assms(1) by (simp add: engine_iterations)
  from tick_same_lookup[OF this Suc] show ?case by simp
qed (simp add: assms(2))

lemma halted_observable: "observable fr' = observable fr \<Longrightarrow> halted st fr' = halted st fr"
  by (simp add: observable_def halted_def)

lemma while_loop_same_lookup:
  assumes "\<forall>s k. lookup (hashable st) (engine fr') s k = lookup (hashable st) (engine fr) s k"
    and "observable fr' = observable fr"
  shows "map_option observable (while_loop st fr') = map_option observable (while_loop st fr)"
proof (cases "while_loop st fr")
  case None
  then have "\<forall>n. \<not> halted st (iterations st n fr)" by (simp add: while_loop_eq_None_iff)
  then have "\<forall>n. \<not> halted st (iterations st n fr')"
    using halted_observable[OF iterations_same_lookup[OF assms]] by simp
  then have "while_loop st fr' = None" by (simp add: while_loop_eq_None_iff)
  with None show ?thesis by simp
next
  case (Some r)
  then obtain n where n: "r = iterations st n fr" "halted st r"
    by (auto dest: while_loop_SomeD)
  have obs: "observable (iterations st n fr') = observable r"
    using iterations_same_lookup[OF assms] n(1) by simp
  then have "halted st (iterations st n fr')" using n(2) halted_observable by blast
  then have "while_loop st fr' = Some (iterations st n fr')"
    using while_loop_eq_Some_iff by blast
  with Some obs show ?thesis by simp
qed

lemma run_same_lookup:
  assumes "\<forall>s k. lookup (hashable st) self' s k = lookup (hashable st) self s k"
    and "start_step self' = start_step self"
  shows "map_option observable (run st self' c) = map_option observable (run st self c)"
  unfolding run_def
  by (rule while_loop_same_lookup) (simp_all add: assms run_entry_def observable_def)

text \<open>A run that comes to a frame, and what the next iteration decides.\<close>

lemma run_from_iteration:
  assumes "fr = iterations st n (run_entry self c)"
    and "halted st (tick st fr)"
  shows "run st self c = Some (tick st fr)"
proof -
  have "while_loop st (tick st fr) = Some (tick st fr)"
    by (rule while_loop_halted[OF assms(2)])
  then have "while_loop st fr = Some (tick st fr)" by (simp add: while_loop_tick)
  then show ?thesis unfolding run_def assms(1) by (simp add: while_loop_iterations)
qed

lemma run_reaching_terminal:
  assumes "fr = iterations st n (run_entry self c)"
    and "raised fr = None"
    and "current_step fr = Some s"
    and "truth_value st s"
    and "execute st s (ctx fr) = (Returns k, c')"
    and "lookup (hashable st) self s k = Inr None"
  shows "run st self c =
     Some (fr\<lparr>current_step := None, ctx := c', executed := executed fr @ [s]\<rparr>)"
proof -
  let ?fr' = "fr\<lparr>current_step := None, ctx := c', executed := executed fr @ [s]\<rparr>"
  have "engine fr = self" using assms(1) by (simp add: engine_iterations run_entry_def)
  then have "tick st fr = ?fr'" using assms(2-6) by (simp add: tick_returns)
  moreover have "halted st ?fr'" using assms(2) by (simp add: halted_def)
  ultimately show ?thesis using run_from_iteration[OF assms(1)] by simp
qed

subsection \<open>Runs with the same outcome keys\<close>




subsection \<open>Workflows of true steps, and a start step that is false\<close>

lemma run_false_start:
  assumes "start_step self = Some A" and "\<not> truth_value st A"
  shows "run st self c = Some (run_entry self c)"
  unfolding run_def using assms
  by (intro while_loop_halted) (simp add: halted_def run_entry_def)

lemma single_step_true:
  assumes "start_step self = Some A"
    and "truth_value st A" and "hashable st A"
    and "flow_map self A = Some inner"
    and "inner k = Some None"
    and "execute st A c = (Returns k, c')"
  shows "run st self c =
     Some \<lparr>engine = self, current_step = None, ctx = c', raised = None, executed = [A]\<rparr>"
proof -
  have l: "lookup (hashable st) self A k = Inr None"
    using assms(3-5) by (simp add: lookup_def)
  let ?f0 = "run_entry self c :: ('a, 'b, 'c) frame"
  have "run st self c =
      Some (?f0\<lparr>current_step := None, ctx := c', executed := executed ?f0 @ [A]\<rparr>)"
    by (rule run_reaching_terminal[where n = 0 and k = k and s = A])
       (simp_all add: run_entry_def assms l)
  then show ?thesis by (simp add: run_entry_def)
qed

lemma diamond_true:
  assumes "start_step self = Some A"
    and "truth_value st A" and "truth_value st T"
    and "execute st A c = (Returns k, c1)"
    and "lookup (hashable st) self A k = Inr (Some T)"
    and "\<forall>k'. lookup (hashable st) self T k' = Inr None"
  shows "\<exists>fr. run st self c = Some fr \<and> executed fr = [A, T]"
proof -
  let ?f0 = "run_entry self c :: ('a, 'b, 'c) frame"
  let ?f1 = "\<lparr>engine = self, current_step = Some T, ctx = c1,
        raised = None :: (py_error + 'c) option, executed = [A]\<rparr>"
  have f1: "iterations st (Suc 0) ?f0 = ?f1"
    using assms(1,2,4,5) by (simp add: tick_def run_entry_def loop_body_def)
  obtain o2 c2 where c2: "execute st T c1 = (o2, c2)" by (cases "execute st T c1")
  have "halted st (tick st ?f1) \<and> executed (tick st ?f1) = [A, T]"
    using c2 assms(3,6) by (cases o2) (simp_all add: tick_def loop_body_def halted_def)
  then have "run st self c = Some (tick st ?f1)" "executed (tick st ?f1) = [A, T]"
    using run_from_iteration[OF f1[symmetric]] by simp_all
  then show ?thesis by blast
qed

lemma self_loop_true:
  assumes "start_step self = Some A"
    and "truth_value st A"
    and "lookup (hashable st) self A ''loop'' = Inr (Some A)"
    and "\<forall>w. fst (execute st A w) = Returns ''loop''"
  shows "(\<forall>n. current_step (iterations st n (run_entry self c)) = Some A \<and>
              raised (iterations st n (run_entry self c)) = None \<and>
              executed (iterations st n (run_entry self c)) = replicate n A) \<and>
         run st self c = None"
proof -
  have inv: "current_step (iterations st n (run_entry self c)) = Some A \<and>
              raised (iterations st n (run_entry self c)) = None \<and>
              executed (iterations st n (run_entry self c)) = replicate n A" for n
  proof (induction n)
    case 0
    show ?case using assms(1) by (simp add: run_entry_def)
  next
    case (Suc n)
    let ?fr = "iterations st n (run_entry self c)"
    obtain w where w: "execute st A (ctx ?fr) = (Returns ''loop'', w)"
      using assms(4) by (metis prod.collapse)
    have "engine ?fr = self" by (simp add: engine_iterations run_entry_def)
    with Suc w assms(2,3) show ?case
      by (simp add: tick_def loop_body_def replicate_append_same)
  qed
  then have "\<forall>n. \<not> halted st (iterations st n (run_entry self c))"
    using assms(2) by (simp add: halted_def)
  then have "run st self c = None"
    by (simp add: run_def while_loop_eq_None_iff)
  with inv show ?thesis by blast
qed

text \<open>The three small workflows, with steps that are true.\<close>

lemma single_true_run:
  "run single_steps single_engine demo_context =
     Some \<lparr>engine = single_engine, current_step = None,
           ctx = \<lparr>context_dict = [''data_valid'' \<mapsto> PBool True], stdout = [''ran'']\<rparr>,
           raised = None, executed = [()]\<rparr>"
  by (rule single_step_true[where inner = "[''x'' \<mapsto> None]" and k = "''x''"])
     (simp_all add: single_steps_def single_engine_def single_execute_def print_def
        demo_context_def always_def)

lemma diamond_true_run:
  "\<exists>fr. run diamond_steps diamond_engine demo_context = Some fr \<and>
        executed fr = [step_a, step_b]"
  by (rule diamond_true[where k = "''yes''" and ?c1.0 = demo_context])
     (simp_all add: diamond_steps_def diamond_engine_def diamond_execute_def lookup_def
        demo_context_def dict_get_def always_def)

lemma loop_true_run: "run loop_steps loop_engine demo_context = None"
proof -
  have 1: "start_step loop_engine = Some ()" by (simp add: loop_engine_def)
  have 2: "truth_value loop_steps ()" by (simp add: loop_steps_def always_def)
  have 3: "lookup (hashable loop_steps) loop_engine () ''loop'' = Inr (Some ())"
    by (simp add: loop_steps_def loop_engine_def lookup_def always_def)
  have 4: "\<forall>w. fst (execute loop_steps () w) = Returns ''loop''"
    by (simp add: loop_steps_def loop_execute_def)
  show ?thesis
    by (rule self_loop_true[where self = loop_engine and A = "()" and st = loop_steps
        and c = demo_context, OF 1 2 3 4, THEN conjunct2])
qed

section \<open>The claims\<close>

text \<open>
  C1, as stated: \<^verbatim>\<open>run\<close> on an engine whose start step was never set raises a
  \<^verbatim>\<open>ConfigurationError\<close>. The source has no such check: on the fresh engine \<^verbatim>\<open>run\<close>
  returns normally, with no exception in flight.
\<close>

theorem run_without_start_counterexample:
  "run (demo_steps :: (demo_step, world, exn) steps) FlowEngine_init demo_context =
     Some \<lparr>engine = FlowEngine_init, current_step = None, ctx = demo_context,
           raised = None, executed = []\<rparr>
   \<and> map_option raised (run (demo_steps :: (demo_step, world, exn) steps)
         FlowEngine_init demo_context) \<noteq> Some (Some (Inr ConfigurationError))"
  by (simp add: run_def run_entry_def FlowEngine_init_def while_loop.simps)

text \<open>
  C1, amended: when no call of \<^verbatim>\<open>set_start\<close> was made on the engine, \<^verbatim>\<open>run\<close> returns
  normally at once: no exception, no step executed, the context as it was given.
\<close>

theorem run_without_start_returns:
  assumes "configure h calls FlowEngine_init = Inr self"
    and "\<forall>s. SetStart s \<notin> set calls"
  shows "run st self c =
     Some \<lparr>engine = self, current_step = None, ctx = c, raised = None, executed = []\<rparr>"
proof -
  from configure_never_set[OF assms] have "start_step self = None"
    by (simp add: FlowEngine_init_def)
  then show ?thesis by (simp add: run_start_unset) (simp add: run_entry_def)
qed

theorem run_without_start_returns_witness:
  "run (demo_steps :: (demo_step, world, exn) steps)
     \<lparr>flow_map = [step_b \<mapsto> [''done'' \<mapsto> None]], start_step = None\<rparr> demo_context =
   Some \<lparr>engine = \<lparr>flow_map = [step_b \<mapsto> [''done'' \<mapsto> None]], start_step = None\<rparr>,
         current_step = None, ctx = demo_context, raised = None, executed = []\<rparr>"
proof -
  have 1: "configure always [AddTransition step_b ''done'' None] FlowEngine_init =
    Inr \<lparr>flow_map = [step_b \<mapsto> [''done'' \<mapsto> None]], start_step = None\<rparr>"
    by (simp add: add_transition_def FlowEngine_init_def always_def)
  have 2: "\<forall>s. SetStart s \<notin> set [AddTransition step_b ''done'' None]" by simp
  show ?thesis by (rule run_without_start_returns [OF 1 2])
qed

text \<open>
  C2: let \<open>s\<close> be a step that can be a dictionary key. When no call
  \<^verbatim>\<open>add_transition(s, k, _)\<close> was made while the engine was configured, the lookup of
  \<open>(s, k)\<close> raises nothing and is \<^verbatim>\<open>None\<close>, the terminal sentinel. Wiring \<open>(s, k)\<close> to
  \<^verbatim>\<open>None\<close> explicitly succeeds and changes no run: whatever the steps do and whatever the
  context, both engines return or diverge alike, with the same final state apart from the
  engine itself. In particular a run that comes to \<open>s\<close> after \<open>n\<close> iterations, executes it
  (the loop goes on: \<open>s\<close> is true) and gets \<open>k\<close> from it ends normally right after that
  call, on either engine.
\<close>

theorem missing_transition_is_terminal:
  assumes "configure (hashable st) calls FlowEngine_init = Inr self"
    and "\<forall>t. AddTransition s k t \<notin> set calls"
    and "hashable st s"
  shows "lookup (hashable st) self s k = Inr None \<and>
    (\<exists>wired. add_transition (hashable st) s k None self = Inr wired \<and>
       lookup (hashable st) wired s k = Inr None \<and>
       map_option observable (run st wired c) = map_option observable (run st self c) \<and>
       (fr = iterations st n (run_entry self c) \<and> raised fr = None \<and>
        current_step fr = Some s \<and> truth_value st s \<and>
        execute st s (ctx fr) = (Returns k, c') \<longrightarrow>
          run st self c =
            Some (fr\<lparr>current_step := None, ctx := c', executed := executed fr @ [s]\<rparr>) \<and>
          map_option observable (run st wired c) =
            Some (None, c', None, executed fr @ [s])))"
proof -
  have none: "lookup (hashable st) self s k = Inr None"
    using configure_never_registered[OF assms(1,2)] assms(3) by (simp add: lookup_init)
  obtain wired where wired: "add_transition (hashable st) s k None self = Inr wired"
    using assms(3) by (simp add: add_transition_Inr)
  have same: "\<forall>s' k'. lookup (hashable st) wired s' k' = lookup (hashable st) self s' k'"
    using lookup_add_transition[OF wired] none by simp
  have start: "start_step wired = start_step self"
    by (rule start_step_add_transition[OF wired])
  have runs: "map_option observable (run st wired c) = map_option observable (run st self c)"
    by (rule run_same_lookup[OF same start])
  have reach: "run st self c =
            Some (fr\<lparr>current_step := None, ctx := c', executed := executed fr @ [s]\<rparr>) \<and>
          map_option observable (run st wired c) =
            Some (None, c', None, executed fr @ [s])"
    if h: "fr = iterations st n (run_entry self c)" "raised fr = None"
          "current_step fr = Some s" "truth_value st s"
          "execute st s (ctx fr) = (Returns k, c')"
  proof -
    have r: "run st self c =
        Some (fr\<lparr>current_step := None, ctx := c', executed := executed fr @ [s]\<rparr>)"
      by (rule run_reaching_terminal[OF h none])
    then have "map_option observable (run st self c) =
        Some (None, c', None, executed fr @ [s])"
      using h(2) by (simp add: observable_def)
    with runs r show ?thesis by simp
  qed
  show ?thesis
  proof (intro conjI exI[of _ wired] impI)
    show "lookup (hashable st) self s k = Inr None" by (rule none)
    show "add_transition (hashable st) s k None self = Inr wired" by (rule wired)
    show "lookup (hashable st) wired s k = Inr None" using same none by simp
  qed (rule runs, (elim conjE, rule reach[THEN conjunct1], assumption+),
       (elim conjE, rule reach[THEN conjunct2], assumption+))
qed

theorem missing_transition_is_terminal_witness:
  "lookup always \<lparr>flow_map = [step_a \<mapsto> [''fail'' \<mapsto> Some step_c]], start_step = Some step_a\<rparr>
     step_a ''success'' = Inr None \<and>
   (\<exists>wired.
      add_transition always step_a ''success'' None
        \<lparr>flow_map = [step_a \<mapsto> [''fail'' \<mapsto> Some step_c]], start_step = Some step_a\<rparr> = Inr wired \<and>
      lookup always wired step_a ''success'' = Inr None \<and>
      run (demo_steps :: (demo_step, world, exn) steps)
        \<lparr>flow_map = [step_a \<mapsto> [''fail'' \<mapsto> Some step_c]], start_step = Some step_a\<rparr>
        demo_context =
      Some \<lparr>engine = \<lparr>flow_map = [step_a \<mapsto> [''fail'' \<mapsto> Some step_c]],
                       start_step = Some step_a\<rparr>,
            current_step = None,
            ctx = \<lparr>context_dict = [''data_valid'' \<mapsto> PBool True],
                    stdout = [''StepA: validating data'']\<rparr>,
            raised = None, executed = [step_a]\<rparr> \<and>
      map_option observable
        (run (demo_steps :: (demo_step, world, exn) steps) wired demo_context) =
      Some (None,
            \<lparr>context_dict = [''data_valid'' \<mapsto> PBool True],
             stdout = [''StepA: validating data'']\<rparr>,
            None, [step_a]))"
proof -
  let ?E = "\<lparr>flow_map = [step_a \<mapsto> [''fail'' \<mapsto> Some step_c]], start_step = Some step_a\<rparr>"
  let ?st = "demo_steps :: (demo_step, world, exn) steps"
  let ?c' = "\<lparr>context_dict = [''data_valid'' \<mapsto> PBool True],
             stdout = [''StepA: validating data'']\<rparr>"
  let ?fr = "run_entry ?E demo_context :: (demo_step, world, exn) frame"
  have hs: "hashable ?st = always" "truth_value ?st = always" "execute ?st = demo_execute"
    by (simp_all add: demo_steps_def)
  have 1: "configure (hashable ?st) [SetStart step_a, AddTransition step_a ''fail'' (Some step_c)]
      FlowEngine_init = Inr ?E"
    by (simp add: hs FlowEngine_init_def add_transition_def set_start_def always_def)
  have 2: "\<forall>t. AddTransition step_a ''success'' t \<notin>
      set [SetStart step_a, AddTransition step_a ''fail'' (Some step_c)]"
    by simp
  have 3: "hashable ?st step_a" by (simp add: hs always_def)
  have reach: "?fr = iterations ?st 0 (run_entry ?E demo_context) \<and> raised ?fr = None \<and>
      current_step ?fr = Some step_a \<and> truth_value ?st step_a \<and>
      execute ?st step_a (ctx ?fr) = (Returns ''success'', ?c')"
    by (simp add: hs always_def run_entry_def demo_context_def StepA_execute_def print_def
        dict_get_def)
  from missing_transition_is_terminal
    [OF 1 2 3, where c = demo_context and fr = ?fr and n = 0 and c' = ?c']
  have l: "lookup (hashable ?st) ?E step_a ''success'' = Inr None"
    and "\<exists>wired. add_transition (hashable ?st) step_a ''success'' None ?E = Inr wired \<and>
       lookup (hashable ?st) wired step_a ''success'' = Inr None \<and>
       map_option observable (run ?st wired demo_context) =
         map_option observable (run ?st ?E demo_context) \<and>
       (?fr = iterations ?st 0 (run_entry ?E demo_context) \<and> raised ?fr = None \<and>
        current_step ?fr = Some step_a \<and> truth_value ?st step_a \<and>
        execute ?st step_a (ctx ?fr) = (Returns ''success'', ?c') \<longrightarrow>
          run ?st ?E demo_context =
            Some (?fr\<lparr>current_step := None, ctx := ?c',
                      executed := executed ?fr @ [step_a]\<rparr>) \<and>
          map_option observable (run ?st wired demo_context) =
            Some (None, ?c', None, executed ?fr @ [step_a]))"
    by (rule conjunct1, rule conjunct2)
  then obtain wired where
    w: "add_transition (hashable ?st) step_a ''success'' None ?E = Inr wired"
       "lookup (hashable ?st) wired step_a ''success'' = Inr None"
    and imp: "?fr = iterations ?st 0 (run_entry ?E demo_context) \<and> raised ?fr = None \<and>
        current_step ?fr = Some step_a \<and> truth_value ?st step_a \<and>
        execute ?st step_a (ctx ?fr) = (Returns ''success'', ?c') \<longrightarrow>
          run ?st ?E demo_context =
            Some (?fr\<lparr>current_step := None, ctx := ?c',
                      executed := executed ?fr @ [step_a]\<rparr>) \<and>
          map_option observable (run ?st wired demo_context) =
            Some (None, ?c', None, executed ?fr @ [step_a])"
    by (elim exE conjE)
  from imp reach have "run ?st ?E demo_context =
            Some (?fr\<lparr>current_step := None, ctx := ?c', executed := executed ?fr @ [step_a]\<rparr>) \<and>
          map_option observable (run ?st wired demo_context) =
            Some (None, ?c', None, executed ?fr @ [step_a])"
    by (rule mp)
  then have f: "run ?st ?E demo_context =
      Some \<lparr>engine = ?E, current_step = None, ctx = ?c', raised = None, executed = [step_a]\<rparr>"
    "map_option observable (run ?st wired demo_context) = Some (None, ?c', None, [step_a])"
    by (simp_all add: run_entry_def)
  note l' = l[unfolded hs] and w' = w[unfolded hs]
  show ?thesis
    by (intro conjI exI[of _ wired]) (rule l' w' f)+
qed

text \<open>
  C3: when, after \<open>n\<close> iterations of a run, the loop goes on with the step \<open>s\<close> and its
  \<^verbatim>\<open>execute\<close> raises \<open>x\<close> leaving the shared state \<open>c'\<close>, then \<^verbatim>\<open>run\<close> ends with exactly
  that exception in flight, the failing step is the last one executed, and the state is
  \<open>c'\<close>: what the earlier steps and the failing one did to the context, with nothing
  undone.
\<close>

theorem step_exception_propagates:
  assumes "fr = iterations st n (run_entry self c)"
    and "raised fr = None"
    and "current_step fr = Some s"
    and "truth_value st s"
    and "execute st s (ctx fr) = (Raises x, c')"
  shows "run st self c =
     Some (fr\<lparr>ctx := c', raised := Some (Inr x), executed := executed fr @ [s]\<rparr>)"
proof -
  let ?fr' = "fr\<lparr>ctx := c', raised := Some (Inr x), executed := executed fr @ [s]\<rparr>"
  have "tick st fr = ?fr'" by (rule tick_raises[OF assms(2-5)])
  moreover have "halted st ?fr'" by (simp add: halted_def)
  ultimately show ?thesis using run_from_iteration[OF assms(1)] by simp
qed

theorem step_exception_propagates_witness:
  "run failing_steps demo_engine demo_context =
     Some \<lparr>engine = demo_engine, current_step = Some step_b,
           ctx = \<lparr>context_dict = [''data_valid'' \<mapsto> PBool True, ''partial'' \<mapsto> PInt 1],
                   stdout = [''StepA: validating data'']\<rparr>,
           raised = Some (Inr (RuntimeError ''boom'')), executed = [step_a, step_b]\<rparr>"
proof -
  let ?fr = "\<lparr>engine = demo_engine, current_step = Some step_b,
           ctx = \<lparr>context_dict = [''data_valid'' \<mapsto> PBool True],
                   stdout = [''StepA: validating data'']\<rparr>,
           raised = None :: (py_error + exn) option, executed = [step_a]\<rparr>"
  have 1: "?fr = iterations failing_steps (Suc 0) (run_entry demo_engine demo_context)"
    by (simp add: tick_def run_entry_def loop_body_def lookup_def demo_engine_def
        demo_context_def StepA_execute_def print_def dict_get_def failing_steps_def always_def)
  have 2: "raised ?fr = None" by simp
  have 3: "current_step ?fr = Some step_b" by simp
  have 4: "truth_value failing_steps step_b" by (simp add: failing_steps_def always_def)
  have 5: "execute failing_steps step_b (ctx ?fr) =
    (Raises (RuntimeError ''boom''),
     \<lparr>context_dict = [''data_valid'' \<mapsto> PBool True, ''partial'' \<mapsto> PInt 1],
      stdout = [''StepA: validating data'']\<rparr>)"
    by (simp add: StepB_failing_def failing_steps_def)
  have "run failing_steps demo_engine demo_context =
      Some (?fr\<lparr>ctx := \<lparr>context_dict = [''data_valid'' \<mapsto> PBool True, ''partial'' \<mapsto> PInt 1],
      stdout = [''StepA: validating data'']\<rparr>, raised := Some (Inr (RuntimeError ''boom'')),
      executed := executed ?fr @ [step_b]\<rparr>)"
    by (rule step_exception_propagates
        [where n = "Suc 0" and self = demo_engine and c = demo_context and s = step_b
           and st = failing_steps and fr = ?fr, OF 1 2 3 4 5])
  then show ?thesis by simp
qed

text \<open>
  C4: let \<open>s\<close> be a step that can be a dictionary key. Two registrations of the same
  \<open>(s, k)\<close> in a row both succeed and leave the engine a single registration of the
  second target would leave. Afterwards the lookup of \<open>(s, k)\<close> is the second target,
  and it stays so through every later sequence of calls that does not register \<open>(s, k)\<close>
  again. The lookup of every other pair is what it was before the two calls, and so is
  the start step.
\<close>

theorem add_transition_overwrites:
  assumes "h s"
  shows "\<exists>self1 self2.
     add_transition h s k t1 self = Inr self1 \<and>
     add_transition h s k t2 self1 = Inr self2 \<and>
     add_transition h s k t2 self = Inr self2 \<and>
     lookup h self2 s k = Inr t2 \<and>
     (\<forall>calls self3.
        configure h calls self2 = Inr self3 \<and> (\<forall>t. AddTransition s k t \<notin> set calls) \<longrightarrow>
        lookup h self3 s k = Inr t2) \<and>
     (\<forall>s' k'. (s', k') \<noteq> (s, k) \<longrightarrow>
        lookup h self2 s' k' = lookup h self1 s' k' \<and>
        lookup h self1 s' k' = lookup h self s' k') \<and>
     start_step self1 = start_step self \<and>
     start_step self2 = start_step self"
proof -
  obtain self1 where 1: "add_transition h s k t1 self = Inr self1"
    using assms by (simp add: add_transition_Inr)
  obtain self2 where 2: "add_transition h s k t2 self1 = Inr self2"
    using assms by (simp add: add_transition_Inr)
  have once: "add_transition h s k t2 self = Inr self2"
    using add_transition_twice[OF 1, of t2] 2 by simp
  have last: "lookup h self2 s k = Inr t2"
    using lookup_add_transition[OF 2] by simp
  have later: "lookup h self3 s k = Inr t2"
    if "configure h calls self2 = Inr self3 \<and> (\<forall>t. AddTransition s k t \<notin> set calls)"
    for calls self3
  proof -
    from that have "lookup h self3 s k = lookup h self2 s k"
      by (elim conjE) (rule configure_never_registered)
    with last show ?thesis by simp
  qed
  have others: "lookup h self2 s' k' = lookup h self1 s' k' \<and>
      lookup h self1 s' k' = lookup h self s' k'"
    if "(s', k') \<noteq> (s, k)" for s' k'
    using that lookup_add_transition[OF 1, of s' k'] lookup_add_transition[OF 2, of s' k']
    by auto
  have start: "start_step self1 = start_step self" "start_step self2 = start_step self"
    using start_step_add_transition[OF 1] start_step_add_transition[OF 2] by simp_all
  show ?thesis
  proof (rule exI[of _ self1], rule exI[of _ self2], intro conjI allI impI)
    fix calls self3
    assume "configure h calls self2 = Inr self3 \<and> (\<forall>t. AddTransition s k t \<notin> set calls)"
    then show "lookup h self3 s k = Inr t2" by (rule later)
  next
    fix s' k' assume ne: "(s', k') \<noteq> (s, k)"
    show "lookup h self2 s' k' = lookup h self1 s' k'"
      by (rule others[OF ne, THEN conjunct1])
    show "lookup h self1 s' k' = lookup h self s' k'"
      by (rule others[OF ne, THEN conjunct2])
  qed (rule 1 2 once last start)+
qed

theorem add_transition_overwrites_witness:
  "\<exists>self1 self2.
     add_transition always step_a ''success'' (Some step_b) demo_engine = Inr self1 \<and>
     add_transition always step_a ''success'' (Some step_a) self1 = Inr self2 \<and>
     lookup always self2 step_a ''success'' = Inr (Some step_a) \<and>
     lookup always self2 step_a ''fail'' = Inr (Some step_c) \<and>
     lookup always self2 step_b ''done'' = Inr None \<and>
     start_step self2 = Some step_a \<and>
     (\<exists>self3. configure always [AddTransition step_b ''retry'' (Some step_a)] self2 = Inr self3 \<and>
        lookup always self3 step_a ''success'' = Inr (Some step_a))"
proof -
  have hs: "always step_a" by (simp add: always_def)
  from add_transition_overwrites
    [where h = always and s = step_a and k = "''success''" and ?t1.0 = "Some step_b"
       and self = demo_engine and ?t2.0 = "Some step_a", OF hs]
  obtain self1 self2 where
    r: "add_transition always step_a ''success'' (Some step_b) demo_engine = Inr self1"
       "add_transition always step_a ''success'' (Some step_a) self1 = Inr self2"
    and last: "lookup always self2 step_a ''success'' = Inr (Some step_a)"
    and later: "\<forall>calls self3.
        configure always calls self2 = Inr self3 \<and>
        (\<forall>t. AddTransition step_a ''success'' t \<notin> set calls) \<longrightarrow>
        lookup always self3 step_a ''success'' = Inr (Some step_a)"
    and others: "\<forall>s' k'. (s', k') \<noteq> (step_a, ''success'') \<longrightarrow>
        lookup always self2 s' k' = lookup always self1 s' k' \<and>
        lookup always self1 s' k' = lookup always demo_engine s' k'"
    and start: "start_step self2 = start_step demo_engine"
    by (elim exE conjE)
  have fail: "lookup always self2 step_a ''fail'' = Inr (Some step_c)"
  proof -
    have ne: "(step_a, ''fail'') \<noteq> (step_a, ''success'')" by simp
    note o = others[rule_format, OF ne]
    have "lookup always self2 step_a ''fail'' = lookup always demo_engine step_a ''fail''"
      using o by simp
    then show ?thesis by (simp add: lookup_def demo_engine_def always_def)
  qed
  have other: "lookup always self2 step_b ''done'' = Inr None"
  proof -
    have ne: "(step_b, ''done'') \<noteq> (step_a, ''success'')" by simp
    note o = others[rule_format, OF ne]
    have "lookup always self2 step_b ''done'' = lookup always demo_engine step_b ''done''"
      using o by simp
    then show ?thesis by (simp add: lookup_def demo_engine_def always_def)
  qed
  have st: "start_step self2 = Some step_a" using start by (simp add: demo_engine_def)
  have "\<forall>s k t. AddTransition s k t \<in> set [AddTransition step_b ''retry'' (Some step_a)] \<longrightarrow>
      always s"
    by (simp add: always_def)
  from configure_hashable[OF this, of self2] obtain self3 where
    3: "configure always [AddTransition step_b ''retry'' (Some step_a)] self2 = Inr self3"
    by (elim exE)
  have n: "\<forall>t. AddTransition step_a ''success'' t \<notin>
      set [AddTransition step_b ''retry'' (Some step_a)]"
    by simp
  have 4: "lookup always self3 step_a ''success'' = Inr (Some step_a)"
    by (rule later[rule_format, OF conjI, OF 3 n])
  show ?thesis
  proof (rule exI[of _ self1], rule exI[of _ self2], intro conjI)
    show "\<exists>self3. configure always [AddTransition step_b ''retry'' (Some step_a)] self2 =
        Inr self3 \<and> lookup always self3 step_a ''success'' = Inr (Some step_a)"
      by (rule exI[of _ self3], rule conjI) (rule 3 4)+
  qed (rule r last fail other st)+
qed

text \<open>
  C5: a step wired to itself on \<^verbatim>\<open>"loop"\<close> that always returns \<^verbatim>\<open>"loop"\<close> should keep
  \<^verbatim>\<open>run\<close> from returning, and for a step that is true it does (\<open>self_loop_true\<close>). Line
  61 tests the truth value of the step, though, not whether it is \<^verbatim>\<open>None\<close>: when the
  class of the step gives \<^verbatim>\<open>__len__\<close> zero, \<^verbatim>\<open>run\<close> returns at once and the step is never
  executed.
\<close>

theorem self_loop_false_step_returns:
  "configure (hashable empty_loop_steps) loop_calls FlowEngine_init = Inr loop_engine \<and>
   lookup (hashable empty_loop_steps) loop_engine () ''loop'' = Inr (Some ()) \<and>
   (\<forall>w. fst (execute empty_loop_steps () w) = Returns ''loop'') \<and>
   run empty_loop_steps loop_engine demo_context =
     Some \<lparr>engine = loop_engine, current_step = Some (), ctx = demo_context,
           raised = None, executed = []\<rparr>"
proof (intro conjI)
  show "configure (hashable empty_loop_steps) loop_calls FlowEngine_init = Inr loop_engine"
    using configure_loop_calls by (simp add: empty_loop_steps_def)
  show "lookup (hashable empty_loop_steps) loop_engine () ''loop'' = Inr (Some ())"
    by (simp add: empty_loop_steps_def lookup_def loop_engine_def always_def)
  show "\<forall>w. fst (execute empty_loop_steps () w) = Returns ''loop''"
    by (simp add: empty_loop_steps_def loop_execute_def)
  have "run empty_loop_steps loop_engine demo_context = Some (run_entry loop_engine demo_context)"
    by (rule run_false_start[where A = "()"])
       (simp_all add: loop_engine_def empty_loop_steps_def never_def)
  then show "run empty_loop_steps loop_engine demo_context =
     Some \<lparr>engine = loop_engine, current_step = Some (), ctx = demo_context,
           raised = None, executed = []\<rparr>"
    by (simp add: run_entry_def loop_engine_def)
qed

text \<open>
  C6: in the diamond \<^verbatim>\<open>run\<close> should execute \<open>[A, B]\<close> when \<open>A\<close> returns \<^verbatim>\<open>"yes"\<close>, and for
  steps that are true it does (\<open>diamond_true\<close>). When the class of \<open>B\<close> gives \<^verbatim>\<open>__len__\<close>
  zero, the test of line 61 ends the loop before \<open>B\<close> is executed: the steps executed
  are \<open>[A]\<close> only.
\<close>

theorem diamond_false_step_skipped:
  "configure (hashable empty_b_steps) diamond_calls FlowEngine_init = Inr diamond_engine \<and>
   fst (execute empty_b_steps step_a demo_context) = Returns ''yes'' \<and>
   run empty_b_steps diamond_engine demo_context =
     Some \<lparr>engine = diamond_engine, current_step = Some step_b, ctx = demo_context,
           raised = None, executed = [step_a]\<rparr>"
proof (intro conjI)
  show "configure (hashable empty_b_steps) diamond_calls FlowEngine_init = Inr diamond_engine"
    using configure_diamond_calls by (simp add: empty_b_steps_def)
  show "fst (execute empty_b_steps step_a demo_context) = Returns ''yes''"
    by (simp add: empty_b_steps_def diamond_execute_def demo_context_def dict_get_def)
  show "run empty_b_steps diamond_engine demo_context =
     Some \<lparr>engine = diamond_engine, current_step = Some step_b, ctx = demo_context,
           raised = None, executed = [step_a]\<rparr>"
    by (simp add: run_def run_entry_def while_loop.simps loop_body_def lookup_def
        empty_b_steps_def diamond_execute_def diamond_engine_def demo_context_def
        dict_get_def always_def not_step_b_def)
qed

text \<open>
  C7: a start step wired to terminal on the key it returns should be executed exactly
  once, and a step that is true is (\<open>single_step_true\<close>). When the class of the step
  gives \<^verbatim>\<open>__len__\<close> zero, the test of line 61 fails on entry: \<^verbatim>\<open>run\<close> returns with no
  call of \<^verbatim>\<open>execute\<close> at all, and the context untouched.
\<close>

theorem single_false_step_not_executed:
  "start_step single_engine = Some () \<and>
   lookup (hashable empty_single_steps) single_engine () ''x'' = Inr None \<and>
   fst (execute empty_single_steps () demo_context) = Returns ''x'' \<and>
   run empty_single_steps single_engine demo_context =
     Some \<lparr>engine = single_engine, current_step = Some (), ctx = demo_context,
           raised = None, executed = []\<rparr>"
proof (intro conjI)
  show "start_step single_engine = Some ()" by (simp add: single_engine_def)
  show "lookup (hashable empty_single_steps) single_engine () ''x'' = Inr None"
    by (simp add: empty_single_steps_def lookup_def single_engine_def always_def)
  show "fst (execute empty_single_steps () demo_context) = Returns ''x''"
    by (simp add: empty_single_steps_def single_execute_def)
  have "run empty_single_steps single_engine demo_context =
      Some (run_entry single_engine demo_context)"
    by (rule run_false_start[where A = "()"])
       (simp_all add: single_engine_def empty_single_steps_def never_def)
  then show "run empty_single_steps single_engine demo_context =
     Some \<lparr>engine = single_engine, current_step = Some (), ctx = demo_context,
           raised = None, executed = []\<rparr>"
    by (simp add: run_entry_def single_engine_def)
qed



text \<open>
  C9: a call of \<^verbatim>\<open>run\<close> that returns (normally or with an exception) leaves the engine's
  \<^verbatim>\<open>flow_map\<close> and \<^verbatim>\<open>start_step\<close> as they were.
\<close>

theorem run_preserves_engine:
  assumes "run st self c = Some fr"
  shows "flow_map (engine fr) = flow_map self \<and> start_step (engine fr) = start_step self"
proof -
  from assms obtain n where "fr = iterations st n (run_entry self c)"
    unfolding run_def by (auto dest: while_loop_SomeD)
  then have "engine fr = self" by (simp add: engine_iterations run_entry_def)
  then show ?thesis by simp
qed

theorem run_preserves_engine_witness:
  "run (demo_steps :: (demo_step, world, exn) steps) demo_engine demo_context =
     Some \<lparr>engine = demo_engine, current_step = None,
         ctx = \<lparr>context_dict = [''data_valid'' \<mapsto> PBool True],
                 stdout = [''StepA: validating data'', ''StepB: processing data'']\<rparr>,
         raised = None, executed = [step_a, step_b]\<rparr> \<and>
   flow_map (engine \<lparr>engine = demo_engine, current_step = None,
         ctx = \<lparr>context_dict = [''data_valid'' \<mapsto> PBool True],
                 stdout = [''StepA: validating data'', ''StepB: processing data'']\<rparr>,
         raised = (None :: (py_error + exn) option), executed = [step_a, step_b]\<rparr>) =
     flow_map demo_engine \<and>
   start_step (engine \<lparr>engine = demo_engine, current_step = None,
         ctx = \<lparr>context_dict = [''data_valid'' \<mapsto> PBool True],
                 stdout = [''StepA: validating data'', ''StepB: processing data'']\<rparr>,
         raised = (None :: (py_error + exn) option), executed = [step_a, step_b]\<rparr>) =
     start_step demo_engine"
proof -
  note r = run_preserves_engine [OF demo_run]
  show ?thesis by (intro conjI) (rule demo_run r[THEN conjunct1] r[THEN conjunct2])+
qed

text \<open>
  C10: \<^verbatim>\<open>StepA.execute\<close> always returns, never raises: \<^verbatim>\<open>"success"\<close> when the context
  maps \<^verbatim>\<open>"data_valid"\<close> to a true value, \<^verbatim>\<open>"fail"\<close> when it maps it to a false one or has
  no such key.
\<close>

theorem StepA_execute_outcome:
  "fst (StepA_execute w) =
     Returns (case context_dict w ''data_valid'' of
                None \<Rightarrow> ''fail''
              | Some v \<Rightarrow> if truthy v then ''success'' else ''fail'')"
  by (simp add: StepA_execute_def Let_def print_def dict_get_def split: option.splits)

end
